theory Spec2Isabelle
  imports Main "HOL-Library.Multiset"
begin

text \<open>
  A model of the image browser of \<open>index.tsx\<close>: the pagination controller
  (\<open>handleSearch\<close>, \<open>fetchImages\<close>, \<open>makeImageCard\<close>) and the AI assistant
  (\<open>generateAiContent\<close>, \<open>imageUrlToBase64\<close>, the lightbox and the three click handlers).

  The module variables and the parts of the document the code writes are fields of a state
  record. An \<open>async\<close> function is cut at its \<open>await\<close>s: one definition runs the call up to
  the first \<open>await\<close>, another resumes it with what the awaited promise settled to, through
  \<open>catch\<close> and \<open>finally\<close>. The state records the suspended calls and a log of the requests
  issued, and an event is a call by the page or the settling of an awaited promise.
  Logging to the console, scrolling, \<open>preventDefault\<close> and the tab buttons have no part in
  the state and are left out.
\<close>

section \<open>Strings\<close>

text \<open>
  JavaScript strings are modelled as \<open>string\<close> (lists of 8-bit characters, read as
  Latin-1 code units). The empty string is the only falsy string.
\<close>

definition js_whitespace :: "char \<Rightarrow> bool" where
  \<comment> \<open>WhiteSpace and LineTerminator code points below 256, as removed by \<open>String.prototype.trim\<close>.\<close>
  "js_whitespace c =
     (c \<in> set [CHR 0x09, CHR 0x0A, CHR 0x0B, CHR 0x0C, CHR 0x0D, CHR 0x20, CHR 0xA0])"

definition trim :: "string \<Rightarrow> string" where
  "trim s = rev (dropWhile js_whitespace (rev (dropWhile js_whitespace s)))"

fun replace_first :: "string \<Rightarrow> string \<Rightarrow> string \<Rightarrow> string" where
  \<comment> \<open>\<open>s.replace(pat, rep)\<close> with a string pattern: only the first occurrence is replaced.\<close>
  "replace_first pat rep [] = (if pat = [] then rep else [])"
| "replace_first pat rep (c # cs) =
     (if take (length pat) (c # cs) = pat then rep @ drop (length pat) (c # cs)
      else c # replace_first pat rep cs)"

definition strip_extension :: "string \<Rightarrow> string" where
  \<comment> \<open>\<open>s.replace(/\.[^/.]+$/, "")\<close>: a final dot followed by one or more characters, none
      of them a dot or a slash, is removed together with what follows it.\<close>
  "strip_extension s =
     (let ext = takeWhile (\<lambda>c. c \<noteq> CHR ''.'') (rev s)
      in if length ext < length s \<and> ext \<noteq> [] \<and> CHR ''/'' \<notin> set ext
         then take (length s - length ext - 1) s
         else s)"

definition escape_char :: "char \<Rightarrow> string" where
  "escape_char c =
     (if c = CHR ''&'' then ''&amp;''
      else if c = CHR ''<'' then ''&lt;''
      else if c = CHR ''>'' then ''&gt;''
      else if c = CHR 0xA0 then ''&nbsp;''
      else [c])"

definition sanitizeHtml :: "string \<Rightarrow> string" where
  \<comment> \<open>The text is stored as \<open>textContent\<close> of a fresh element and read back as \<open>innerHTML\<close>.\<close>
  "sanitizeHtml str = concat (map escape_char str)"


section \<open>Objects and their property order\<close>

text \<open>
  An ordinary object enumerates its array-index keys first, in ascending numeric order,
  and then its other string keys in the order of their creation. An array index is a
  canonical numeric string (the decimal numeral of its value) below \<open>2\<^sup>3\<^sup>2 - 1\<close>. The
  members of an object in a response body are defined one after the other, a repeated key
  replacing the value in place.
\<close>

definition is_digit :: "char \<Rightarrow> bool" where
  "is_digit c = (c \<in> set ''0123456789'')"

definition digit_val :: "char \<Rightarrow> nat" where
  "digit_val c = of_char c - 48"

definition parse_nat :: "string \<Rightarrow> nat" where
  "parse_nat k = foldl (\<lambda>n c. 10 * n + digit_val c) 0 k"

function decimal :: "nat \<Rightarrow> string" where
  "decimal n =
     (if n < 10 then [''0123456789'' ! n]
      else decimal (n div 10) @ [''0123456789'' ! (n mod 10)])"
  by pat_completeness auto
termination
  by (relation "measure id") auto

declare decimal.simps [simp del]

definition array_index :: "string \<Rightarrow> nat option" where
  "array_index k =
     (if k \<noteq> [] \<and> list_all is_digit k \<and> decimal (parse_nat k) = k \<and> parse_nat k < 2 ^ 32 - 1
      then Some (parse_nat k) else None)"

type_synonym 'a js_object = "(nat \<times> 'a) list \<times> (string \<times> 'a) list"

fun put_index :: "nat \<Rightarrow> 'a \<Rightarrow> (nat \<times> 'a) list \<Rightarrow> (nat \<times> 'a) list" where
  "put_index n v [] = [(n, v)]"
| "put_index n v ((m, w) # rest) =
     (if n < m then (n, v) # (m, w) # rest
      else if n = m then (m, v) # rest
      else (m, w) # put_index n v rest)"

fun put_named :: "string \<Rightarrow> 'a \<Rightarrow> (string \<times> 'a) list \<Rightarrow> (string \<times> 'a) list" where
  "put_named k v [] = [(k, v)]"
| "put_named k v ((j, w) # rest) =
     (if k = j then (j, v) # rest else (j, w) # put_named k v rest)"

definition define_property :: "string \<Rightarrow> 'a \<Rightarrow> 'a js_object \<Rightarrow> 'a js_object" where
  "define_property k v obj =
     (case array_index k of
        Some n \<Rightarrow> (put_index n v (fst obj), snd obj)
      | None \<Rightarrow> (fst obj, put_named k v (snd obj)))"

definition JSON_object :: "(string \<times> 'a) list \<Rightarrow> 'a js_object" where
  \<comment> \<open>the object parsed from the members of a response body, given in the order of the body\<close>
  "JSON_object members = fold (\<lambda>(k, v). define_property k v) members ([], [])"

definition Object_values :: "'a js_object \<Rightarrow> 'a list" where
  "Object_values obj = map snd (fst obj) @ map snd (snd obj)"


definition Object_entries :: "'a js_object \<Rightarrow> (string \<times> 'a) list" where
  "Object_entries obj = map (\<lambda>(n, v). (decimal n, v)) (fst obj) @ snd obj"

definition wf_object :: "'a js_object \<Rightarrow> bool" where
  \<comment> \<open>the array-index keys are kept in ascending order, each key once\<close>
  "wf_object obj =
     (sorted (map fst (fst obj)) \<and> distinct (map fst (fst obj))
      \<and> (\<forall>(n, v) \<in> set (fst obj). array_index (decimal n) = Some n)
      \<and> (\<forall>(k, v) \<in> set (snd obj). array_index k = None))"


section \<open>Search results and image cards\<close>

record imageinfo =
  info_url :: string
  info_thumburl :: string
  info_user :: string
  info_artist :: "string option"  \<comment> \<open>\<open>info.extmetadata?.Artist?.value\<close>\<close>

record page =
  page_title :: string
  page_imageinfo :: "imageinfo list option"

record lightbox_data =
  lb_url :: string
  lb_title :: string
  lb_author :: string
  lb_thumb :: string

record card =
  card_className :: string
  card_innerHTML :: string     \<comment> \<open>the markup assigned to \<open>card.innerHTML\<close>\<close>
  card_click :: lightbox_data  \<comment> \<open>the argument the click listener passes to \<open>openLightbox\<close>\<close>

definition card_template :: "string \<Rightarrow> string \<Rightarrow> string" where
  \<comment> \<open>The template literal of \<open>makeImageCard\<close>, for \<open>info.thumburl\<close> and \<open>title\<close>, with its
      line breaks and indentation.\<close>
  "card_template thumburl title =
     [CHR 0x0A] @ ''        <img src=\"'' @ thumburl @ ''\" alt=\"'' @ sanitizeHtml title @
       ''\" loading=\"lazy\">'' @
     [CHR 0x0A] @ ''        <div class=\"card-info\">'' @
     [CHR 0x0A] @ ''            <h3>'' @ sanitizeHtml title @ ''</h3>'' @
     [CHR 0x0A] @ ''        </div>'' @
     [CHR 0x0A] @ ''    ''"

definition makeImageCard :: "page \<Rightarrow> card option" where
  \<comment> \<open>\<open>None\<close> is the \<open>TypeError\<close> thrown when \<open>page.imageinfo\<close> is undefined or empty.\<close>
  "makeImageCard page =
     (case page_imageinfo page of
        None \<Rightarrow> None
      | Some [] \<Rightarrow> None
      | Some (info # _) \<Rightarrow>
          (let filename = replace_first ''File:'' '''' (page_title page);
               title = strip_extension filename;
               author = (case info_artist info of
                           None \<Rightarrow> ''Uploader: '' @ info_user info
                         | Some a \<Rightarrow> if a = [] then ''Uploader: '' @ info_user info else a)
           in Some \<lparr>card_className = ''image-card'',
                    card_innerHTML = card_template (info_thumburl info) title,
                    card_click = \<lparr>lb_url = info_url info, lb_title = title,
                                  lb_author = author, lb_thumb = info_thumburl info\<rparr>\<rparr>))"

fun map_makeImageCard :: "page list \<Rightarrow> card list option" where
  \<comment> \<open>\<open>xs.map(page => makeImageCard(page))\<close>: the first throwing element aborts the map.\<close>
  "map_makeImageCard [] = Some []"
| "map_makeImageCard (p # ps) =
     (case makeImageCard p of
        None \<Rightarrow> None
      | Some c \<Rightarrow> (case map_makeImageCard ps of None \<Rightarrow> None | Some cs \<Rightarrow> Some (c # cs)))"

record query_part =
  pages :: "(string \<times> page) list option"  \<comment> \<open>the members of \<open>pages\<close>, in the order of the body\<close>

record response_data =
  query :: "query_part option"
  continue :: "int option"  \<comment> \<open>\<open>response.data.continue.gsroffset\<close>, when \<open>continue\<close> is present\<close>

datatype outcome = Rejected | Resolved response_data


section \<open>Pagination state\<close>

record request =
  gsrsearch :: string
  gsrlimit :: nat
  req_gsroffset :: int

record pstate =
  currentQuery :: string
  gsroffset :: int
  isLoading :: bool
  hasMore :: bool
  resultsContainer :: "card list"
  noResultsEl :: string      \<comment> \<open>\<open>style.display\<close>\<close>
  initialLoader :: string    \<comment> \<open>\<open>style.display\<close>\<close>
  requests :: "request list" \<comment> \<open>the search requests issued so far, oldest first\<close>
  pending :: nat             \<comment> \<open>calls of \<open>fetchImages\<close> suspended at their \<open>await\<close>\<close>

definition BATCH_SIZE :: nat where
  "BATCH_SIZE = 24"

definition init_pstate :: pstate where
  "init_pstate =
     \<lparr>currentQuery = '''', gsroffset = 0, isLoading = False, hasMore = True,
      resultsContainer = [], noResultsEl = '''', initialLoader = '''',
      requests = [], pending = 0\<rparr>"

datatype completion = Normal pstate | Throw pstate

definition fetchImages :: "pstate \<Rightarrow> pstate" where
  \<comment> \<open>The call of \<open>fetchImages\<close> up to its \<open>await\<close>: the guard, the flag and the request.\<close>
  "fetchImages s =
     (if isLoading s \<or> \<not> hasMore s \<or> currentQuery s = [] then s
      else s\<lparr>isLoading := True,
             requests := requests s @
               [\<lparr>gsrsearch = currentQuery s, gsrlimit = BATCH_SIZE, req_gsroffset = gsroffset s\<rparr>],
             pending := Suc (pending s)\<rparr>)"

definition store_continue :: "response_data \<Rightarrow> pstate \<Rightarrow> pstate" where
  "store_continue data s =
     (case continue data of
        Some off \<Rightarrow> s\<lparr>gsroffset := off\<rparr>
      | None \<Rightarrow> s\<lparr>hasMore := False\<rparr>)"

definition fetchImages_try :: "response_data \<Rightarrow> pstate \<Rightarrow> completion" where
  \<comment> \<open>The \<open>try\<close> block after the response has arrived.\<close>
  "fetchImages_try data s =
     (let s1 = s\<lparr>initialLoader := ''none''\<rparr>
      in if gsroffset s1 = 0 \<and> query data = None
         then Normal (store_continue data (s1\<lparr>noResultsEl := ''block'', hasMore := False\<rparr>))
         else (case Option.bind (query data) pages of
                 None \<Rightarrow> Normal (store_continue data s1)
               | Some ps \<Rightarrow>
                   (case map_makeImageCard (Object_values (JSON_object ps)) of
                      None \<Rightarrow> Throw s1
                    | Some items \<Rightarrow>
                        Normal (store_continue data
                          (s1\<lparr>resultsContainer := resultsContainer s1 @ items\<rparr>)))))"

definition fetchImages_catch :: "pstate \<Rightarrow> pstate" where
  "fetchImages_catch s = s\<lparr>hasMore := False, initialLoader := ''none''\<rparr>"

definition fetchImages_resume :: "outcome \<Rightarrow> pstate \<Rightarrow> pstate" where
  \<comment> \<open>The rest of a suspended call, from the settled request to the \<open>finally\<close> block.\<close>
  "fetchImages_resume out s =
     (let s' = (case out of
                  Rejected \<Rightarrow> fetchImages_catch s
                | Resolved data \<Rightarrow>
                    (case fetchImages_try data s of
                       Normal s1 \<Rightarrow> s1
                     | Throw s1 \<Rightarrow> fetchImages_catch s1))
      in s'\<lparr>isLoading := False, pending := pending s' - 1\<rparr>)"

definition search_query :: "string option \<Rightarrow> string \<Rightarrow> string" where
  \<comment> \<open>\<open>queryStr || searchInput.value.trim()\<close>\<close>
  "search_query queryStr inputValue =
     (case queryStr of
        None \<Rightarrow> trim inputValue
      | Some q \<Rightarrow> if q = [] then trim inputValue else q)"

definition handleSearch_reset :: "string \<Rightarrow> pstate \<Rightarrow> pstate" where
  \<comment> \<open>The assignments of \<open>handleSearch\<close> between its guard and its call of \<open>fetchImages\<close>.\<close>
  "handleSearch_reset q s =
     s\<lparr>currentQuery := q, gsroffset := 0, hasMore := True, resultsContainer := [],
       noResultsEl := ''none'', initialLoader := ''flex''\<rparr>"

definition handleSearch :: "string option \<Rightarrow> string \<Rightarrow> pstate \<Rightarrow> pstate" where
  "handleSearch queryStr inputValue s =
     (let q = search_query queryStr inputValue
      in if q = [] \<or> q = currentQuery s then s
         else fetchImages (handleSearch_reset q s))"

definition infScroll_path :: "pstate \<Rightarrow> string option" where
  "infScroll_path s = (if hasMore s \<and> \<not> isLoading s then Some ''dummy'' else None)"


subsection \<open>Events of the pagination controller\<close>

datatype pevent =
    Search "string option" string  \<comment> \<open>\<open>handleSearch\<close> with \<open>queryStr\<close> and the input's value\<close>
  | Load                           \<comment> \<open>the \<open>load\<close> signal of the infinite scroll\<close>
  | Settle outcome                 \<comment> \<open>the pending search request settles\<close>

fun is_Search :: "pevent \<Rightarrow> bool" where
  "is_Search (Search _ _) = True"
| "is_Search _ = False"

fun pstep :: "pevent \<Rightarrow> pstate \<Rightarrow> pstate" where
  "pstep (Search queryStr inputValue) s = handleSearch queryStr inputValue s"
| "pstep Load s = fetchImages s"
| "pstep (Settle out) s = (if pending s = 0 then s else fetchImages_resume out s)"

definition prun :: "pevent list \<Rightarrow> pstate \<Rightarrow> pstate" where
  "prun evs s = fold pstep evs s"

fun fetch_failed :: "outcome \<Rightarrow> pstate \<Rightarrow> bool" where
  \<comment> \<open>The settled request takes the \<open>catch\<close> block.\<close>
  "fetch_failed Rejected s = True"
| "fetch_failed (Resolved data) s =
     (case fetchImages_try data s of Throw _ \<Rightarrow> True | Normal _ \<Rightarrow> False)"

definition one_fetch :: "pstate \<Rightarrow> bool" where
  \<comment> \<open>A call is suspended exactly while \<open>isLoading\<close> is set, and never more than one.\<close>
  "one_fetch s = (pending s = (if isLoading s then 1 else 0))"

definition shows_result :: "card \<Rightarrow> page \<Rightarrow> bool" where
  \<comment> \<open>The card is an image card whose markup shows the thumbnail and the title of the
      result, and a click on it opens the image of the result under that title.\<close>
  "shows_result c p =
     (case page_imageinfo p of
        Some (info # _) \<Rightarrow>
          card_className c = ''image-card''
          \<and> lb_url (card_click c) = info_url info
          \<and> lb_thumb (card_click c) = info_thumburl info
          \<and> lb_title (card_click c) = strip_extension (replace_first ''File:'' '''' (page_title p))
          \<and> card_innerHTML c =
              [CHR 0x0A] @ ''        <img src=\"'' @ info_thumburl info @ ''\" alt=\"'' @
                sanitizeHtml (lb_title (card_click c)) @ ''\" loading=\"lazy\">'' @
              [CHR 0x0A] @ ''        <div class=\"card-info\">'' @
              [CHR 0x0A] @ ''            <h3>'' @ sanitizeHtml (lb_title (card_click c)) @ ''</h3>'' @
              [CHR 0x0A] @ ''        </div>'' @
              [CHR 0x0A] @ ''    ''
      | _ \<Rightarrow> False)"


subsection \<open>Example responses\<close>

definition example_info :: "string \<Rightarrow> imageinfo" where
  "example_info name =
     \<lparr>info_url = ''https://upload.example/'' @ name,
      info_thumburl = ''https://upload.example/thumb/'' @ name,
      info_user = ''Alice'', info_artist = None\<rparr>"

definition example_pages :: "(string \<times> page) list" where
  \<comment> \<open>two results, listed by the body in the order 42, 11\<close>
  "example_pages =
     [(''42'', \<lparr>page_title = ''File:Two.cats.png'', page_imageinfo = Some [example_info ''Two.cats.png'']\<rparr>),
      (''11'', \<lparr>page_title = ''File:Cat & dog.jpg'', page_imageinfo = Some [example_info ''Cat.jpg'']\<rparr>)]"

definition example_cards :: "card list" where
  \<comment> \<open>the cards of the two results, written out, the one of result 11 first\<close>
  "example_cards =
     [\<lparr>card_className = ''image-card'',
       card_innerHTML =
         [CHR 0x0A] @ ''        <img src=\"https://upload.example/thumb/Cat.jpg\" alt=\"Cat &amp; dog\" loading=\"lazy\">'' @
         [CHR 0x0A] @ ''        <div class=\"card-info\">'' @
         [CHR 0x0A] @ ''            <h3>Cat &amp; dog</h3>'' @
         [CHR 0x0A] @ ''        </div>'' @
         [CHR 0x0A] @ ''    '',
       card_click = \<lparr>lb_url = ''https://upload.example/Cat.jpg'', lb_title = ''Cat & dog'',
         lb_author = ''Uploader: Alice'', lb_thumb = ''https://upload.example/thumb/Cat.jpg''\<rparr>\<rparr>,
      \<lparr>card_className = ''image-card'',
       card_innerHTML =
         [CHR 0x0A] @ ''        <img src=\"https://upload.example/thumb/Two.cats.png\" alt=\"Two.cats\" loading=\"lazy\">'' @
         [CHR 0x0A] @ ''        <div class=\"card-info\">'' @
         [CHR 0x0A] @ ''            <h3>Two.cats</h3>'' @
         [CHR 0x0A] @ ''        </div>'' @
         [CHR 0x0A] @ ''    '',
       card_click = \<lparr>lb_url = ''https://upload.example/Two.cats.png'', lb_title = ''Two.cats'',
         lb_author = ''Uploader: Alice'',
         lb_thumb = ''https://upload.example/thumb/Two.cats.png''\<rparr>\<rparr>]"

definition example_response :: response_data where
  "example_response = \<lparr>query = Some \<lparr>pages = Some example_pages\<rparr>, continue = Some 24\<rparr>"

definition exhausted_pstate :: pstate where
  "exhausted_pstate =
     fetchImages_resume (Resolved \<lparr>query = Some \<lparr>pages = Some example_pages\<rparr>, continue = None\<rparr>)
       (handleSearch (Some ''cats'') [] init_pstate)"

definition broken_response :: response_data where
  "broken_response =
     \<lparr>query = Some \<lparr>pages = Some [(''7'', \<lparr>page_title = ''File:Gone.jpg'', page_imageinfo = None\<rparr>)]\<rparr>,
      continue = Some 24\<rparr>"

section \<open>AI assistant\<close>

datatype pane = StoryDisplay | AnalysisDisplay | ChatHistory

datatype node =
    Html string             \<comment> \<open>markup assigned through \<open>innerHTML\<close>\<close>
  | Text string             \<comment> \<open>text assigned through \<open>innerText\<close>\<close>
  | Div nat string string   \<comment> \<open>an element made by \<open>createElement\<close>: identity, class name, text\<close>
  | Parsed string string    \<comment> \<open>the same element after the markup of its parent was parsed anew\<close>

fun reparse :: "node \<Rightarrow> node" where
  \<comment> \<open>\<open>el.innerHTML += ...\<close> serialises and parses the children: element identities are lost.\<close>
  "reparse (Div i c t) = Parsed c t"
| "reparse n = n"

definition set_innerText :: "string \<Rightarrow> node list" where
  "set_innerText t = (if t = [] then [] else [Text t])"

fun write_node :: "nat \<Rightarrow> string \<Rightarrow> node \<Rightarrow> node" where
  "write_node i t (Div j c u) = (if i = j then Div j c t else Div j c u)"
| "write_node i t n = n"

record image_data =
  url :: string
  title :: string
  mimeType :: "string option"
  base64 :: "string option"

definition js_falsy :: "string option \<Rightarrow> bool" where
  \<comment> \<open>\<open>!x\<close> for a value that is a string or undefined\<close>
  "js_falsy x = (case x of None \<Rightarrow> True | Some v \<Rightarrow> v = [])"

definition js_string :: "string option \<Rightarrow> string" where
  \<comment> \<open>the string that concatenation and template literals make of a string or undefined\<close>
  "js_string x = (case x of None \<Rightarrow> ''undefined'' | Some v \<Rightarrow> v)"

datatype blob_read =
    ReadError           \<comment> \<open>\<open>reader.onerror\<close>\<close>
  | ReadResult string   \<comment> \<open>\<open>reader.onload\<close> with \<open>reader.result\<close>\<close>

datatype image_fetch =
    GetRejected string          \<comment> \<open>\<open>axios.get\<close> rejects with an error of this message\<close>
  | GetResolved string blob_read  \<comment> \<open>\<open>blob.type\<close> and the outcome of reading the blob\<close>

definition split_comma_1 :: "string \<Rightarrow> string option" where
  \<comment> \<open>\<open>s.split(',')[1]\<close>\<close>
  "split_comma_1 s =
     (let rest = dropWhile (\<lambda>c. c \<noteq> CHR '','') s
      in if rest = [] then None else Some (takeWhile (\<lambda>c. c \<noteq> CHR '','') (tl rest)))"

fun imageUrlToBase64 :: "image_fetch \<Rightarrow> string + string \<times> string option" where
  \<comment> \<open>The settled promise: \<open>Inl\<close> the \<open>message\<close> of the rejection, \<open>Inr\<close> the resolved
      \<open>mimeType\<close> and \<open>data\<close>. The event a failed read rejects with has no \<open>message\<close>.\<close>
  "imageUrlToBase64 (GetRejected msg) = Inl msg"
| "imageUrlToBase64 (GetResolved mime ReadError) = Inl (js_string None)"
| "imageUrlToBase64 (GetResolved mime (ReadResult r)) = Inr (mime, split_comma_1 r)"

datatype container = DisplayEl | Created nat

datatype phase =
    AwaitEncoding                \<comment> \<open>suspended at \<open>await imageUrlToBase64(...)\<close>\<close>
  | AwaitStream                  \<comment> \<open>suspended at \<open>await ai.models.generateContentStream(...)\<close>\<close>
  | Streaming string container   \<comment> \<open>suspended in \<open>for await\<close>, with \<open>fullText\<close> and \<open>streamContainer\<close>\<close>

record task =
  task_prompt :: string
  task_displayEl :: pane
  task_isChat :: bool
  task_phase :: phase

record gen_request =
  gen_model :: string
  gen_mimeType :: "string option"
  gen_data :: "string option"
  gen_text :: string

record astate =
  currentImageData :: "image_data option"
  aiClient :: bool                    \<comment> \<open>whether the client has been created\<close>
  aiLoader :: string                  \<comment> \<open>\<open>style.display\<close>\<close>
  display :: "pane \<Rightarrow> node list"      \<comment> \<open>the children of the three output elements\<close>
  chatInput :: string
  lightboxImg :: string
  lightboxTitle :: string
  lightboxAuthor :: string
  downloadBtn :: string
  lightbox_show :: bool
  body_overflow :: string
  imageRequests :: "string list"      \<comment> \<open>the image downloads issued so far, oldest first\<close>
  genRequests :: "gen_request list"   \<comment> \<open>the generation requests issued so far, oldest first\<close>
  tasks :: "nat \<Rightarrow> task option"       \<comment> \<open>the suspended calls of \<open>generateAiContent\<close>\<close>
  nextTask :: nat
  nextNode :: nat

definition init_astate :: astate where
  "init_astate =
     \<lparr>currentImageData = None, aiClient = False, aiLoader = '''',
      display = (\<lambda>_. []), chatInput = '''',
      lightboxImg = '''', lightboxTitle = '''', lightboxAuthor = '''', downloadBtn = '''',
      lightbox_show = False, body_overflow = '''',
      imageRequests = [], genRequests = [], tasks = (\<lambda>_. None), nextTask = 0, nextNode = 0\<rparr>"

definition getAi :: "astate \<Rightarrow> astate" where
  "getAi s = (if \<not> aiClient s then s\<lparr>aiClient := True\<rparr> else s)"

definition setAiLoading :: "bool \<Rightarrow> astate \<Rightarrow> astate" where
  "setAiLoading loading s = s\<lparr>aiLoader := (if loading then ''flex'' else ''none'')\<rparr>"

definition error_markup :: "string \<Rightarrow> string" where
  "error_markup msg = ''<p class=\"error\">AI unavailable: '' @ msg @ ''</p>''"

definition null_property_message :: string where
  \<comment> \<open>the message of the \<open>TypeError\<close> for \<open>currentImageData.mimeType = ...\<close> on \<open>null\<close>, in the
      wording of V8\<close>
  "null_property_message =
     ''Cannot set properties of null (setting '' @ [CHR 0x27] @ ''mimeType'' @ [CHR 0x27] @ '')''"

definition request_stream :: "nat \<Rightarrow> task \<Rightarrow> image_data \<Rightarrow> astate \<Rightarrow> astate" where
  \<comment> \<open>From \<open>imagePart\<close> to the \<open>await\<close> of \<open>generateContentStream\<close>.\<close>
  "request_stream tid tk img s =
     s\<lparr>genRequests := genRequests s @
          [\<lparr>gen_model = ''gemini-3-flash-preview'', gen_mimeType = mimeType img,
            gen_data = base64 img, gen_text = task_prompt tk\<rparr>],
       tasks := (tasks s)(tid \<mapsto> tk\<lparr>task_phase := AwaitStream\<rparr>)\<rparr>"

definition generateAiContent :: "string \<Rightarrow> pane \<Rightarrow> bool \<Rightarrow> astate \<Rightarrow> astate" where
  \<comment> \<open>The call of \<open>generateAiContent\<close> up to its first \<open>await\<close>.\<close>
  "generateAiContent prompt displayEl isChat s =
     (case currentImageData s of
        None \<Rightarrow> s
      | Some img \<Rightarrow>
          (let tid = nextTask s;
               tk = \<lparr>task_prompt = prompt, task_displayEl = displayEl, task_isChat = isChat,
                     task_phase = AwaitEncoding\<rparr>;
               s1 = (setAiLoading True s)\<lparr>nextTask := Suc tid\<rparr>;
               s2 = (if \<not> isChat then s1\<lparr>display := (display s1)(displayEl := [])\<rparr> else s1);
               s3 = getAi s2
           in if js_falsy (base64 img)
              then s3\<lparr>imageRequests := imageRequests s3 @ [url img],
                      tasks := (tasks s3)(tid \<mapsto> tk)\<rparr>
              else request_stream tid tk img s3))"

definition generate_finally :: "nat \<Rightarrow> astate \<Rightarrow> astate" where
  "generate_finally tid s = (setAiLoading False s)\<lparr>tasks := (tasks s)(tid := None)\<rparr>"

definition generate_catch :: "nat \<Rightarrow> task \<Rightarrow> string \<Rightarrow> astate \<Rightarrow> astate" where
  \<comment> \<open>The \<open>catch\<close> block, for an error of the given \<open>message\<close>, and the \<open>finally\<close> block.\<close>
  "generate_catch tid tk msg s =
     generate_finally tid
       (s\<lparr>display := (display s)(task_displayEl tk :=
             map reparse (display s (task_displayEl tk)) @ [Html (error_markup msg)])\<rparr>)"

definition open_stream :: "nat \<Rightarrow> task \<Rightarrow> astate \<Rightarrow> astate" where
  \<comment> \<open>From \<open>let fullText = ''\<close> to the first \<open>await\<close> of the loop.\<close>
  "open_stream tid tk s =
     (if task_isChat tk
      then s\<lparr>display := (display s)(task_displayEl tk :=
                display s (task_displayEl tk) @ [Div (nextNode s) ''chat-msg ai-msg'' '''']),
             nextNode := Suc (nextNode s),
             tasks := (tasks s)(tid \<mapsto> tk\<lparr>task_phase := Streaming '''' (Created (nextNode s))\<rparr>)\<rparr>
      else s\<lparr>tasks := (tasks s)(tid \<mapsto> tk\<lparr>task_phase := Streaming '''' DisplayEl\<rparr>)\<rparr>)"

definition write_container :: "pane \<Rightarrow> container \<Rightarrow> string \<Rightarrow> astate \<Rightarrow> astate" where
  \<comment> \<open>\<open>streamContainer.innerText = fullText\<close>; a created element that is no longer among
      the children of the displayed element is written out of sight.\<close>
  "write_container displayEl c fullText s =
     (case c of
        DisplayEl \<Rightarrow> s\<lparr>display := (display s)(displayEl := set_innerText fullText)\<rparr>
      | Created i \<Rightarrow>
          s\<lparr>display := (display s)(displayEl := map (write_node i fullText) (display s displayEl))\<rparr>)"

datatype settlement =
    ImageFetched image_fetch     \<comment> \<open>the image download and its reading settle\<close>
  | StreamOpened                 \<comment> \<open>\<open>generateContentStream\<close> resolves\<close>
  | ChunkArrived "string option" \<comment> \<open>the stream yields a chunk with this \<open>text\<close>\<close>
  | StreamEnded                  \<comment> \<open>the stream is exhausted\<close>
  | Failed string                \<comment> \<open>the awaited promise rejects with an error of this message\<close>

definition generate_resume :: "nat \<Rightarrow> task \<Rightarrow> settlement \<Rightarrow> astate \<Rightarrow> astate" where
  \<comment> \<open>A suspended call continues with what it awaited; a settlement that its \<open>await\<close>
      cannot produce leaves it suspended.\<close>
  "generate_resume tid tk st s =
     (case task_phase tk of
        AwaitEncoding \<Rightarrow>
          (case st of
             ImageFetched r \<Rightarrow>
               (case imageUrlToBase64 r of
                  Inl msg \<Rightarrow> generate_catch tid tk msg s
                | Inr (mime, data) \<Rightarrow>
                    (case currentImageData s of
                       None \<Rightarrow> generate_catch tid tk null_property_message s
                     | Some img \<Rightarrow>
                         (let img' = img\<lparr>mimeType := Some mime, base64 := data\<rparr>
                          in request_stream tid tk img' (s\<lparr>currentImageData := Some img'\<rparr>))))
           | _ \<Rightarrow> s)
      | AwaitStream \<Rightarrow>
          (case st of
             StreamOpened \<Rightarrow> open_stream tid tk s
           | Failed msg \<Rightarrow> generate_catch tid tk msg s
           | _ \<Rightarrow> s)
      | Streaming fullText c \<Rightarrow>
          (case st of
             ChunkArrived text \<Rightarrow>
               (let fullText' = fullText @ js_string text
                in (write_container (task_displayEl tk) c fullText' s)
                     \<lparr>tasks := (tasks s)(tid \<mapsto> tk\<lparr>task_phase := Streaming fullText' c\<rparr>)\<rparr>)
           | StreamEnded \<Rightarrow> generate_finally tid s
           | Failed msg \<Rightarrow> generate_catch tid tk msg s
           | _ \<Rightarrow> s))"

definition handleGenreClick :: "string \<Rightarrow> astate \<Rightarrow> astate" where
  "handleGenreClick genre s =
     generateAiContent
       (''Write a short, immersive '' @ genre @
        '' story (about 150 words) inspired by this image titled \"'' @
        js_string (map_option title (currentImageData s)) @
        ''\". Use vivid sensory details.'')
       StoryDisplay False s"

definition handleAnalyzeClick :: "astate \<Rightarrow> astate" where
  "handleAnalyzeClick s =
     generateAiContent
       (''Analyze this image. Identify the key subjects, the artistic or photographic style, '' @
        ''the likely time period or location if applicable, and any interesting hidden details '' @
        ''you see. Be concise and use bullet points.'')
       AnalysisDisplay False s"

definition handleChatSend :: "astate \<Rightarrow> astate" where
  "handleChatSend s =
     (let q = trim (chatInput s)
      in if q = [] then s
         else generateAiContent (''Answer this question about the provided image: '' @ q)
                ChatHistory True
                (s\<lparr>display := (display s)(ChatHistory :=
                      display s ChatHistory @ [Div (nextNode s) ''chat-msg user-msg'' (''You: '' @ q)]),
                   nextNode := Suc (nextNode s),
                   chatInput := ''''\<rparr>))"

definition openLightbox :: "lightbox_data \<Rightarrow> astate \<Rightarrow> astate" where
  \<comment> \<open>The swap of the thumbnail for the full image, once it has loaded, is left out.\<close>
  "openLightbox data s =
     s\<lparr>currentImageData :=
          Some \<lparr>url = lb_url data, title = lb_title data, mimeType = None, base64 = None\<rparr>,
       lightboxImg := lb_thumb data,
       lightboxTitle := sanitizeHtml (lb_title data),
       lightboxAuthor := lb_author data,
       downloadBtn := lb_url data,
       display := (\<lambda>p. case p of
          StoryDisplay \<Rightarrow> [Html ''<p class=\"placeholder\">Select a style to generate a story...</p>'']
        | AnalysisDisplay \<Rightarrow> [Html ''<p class=\"placeholder\">Click to identify objects and context...</p>'']
        | ChatHistory \<Rightarrow> [Html ''<p class=\"system-msg\">Ask Gemini anything about this image.</p>'']),
       lightbox_show := True,
       body_overflow := ''hidden''\<rparr>"

definition closeLightbox :: "astate \<Rightarrow> astate" where
  "closeLightbox s = s\<lparr>lightbox_show := False, body_overflow := '''', currentImageData := None\<rparr>"


subsection \<open>Events of the AI assistant\<close>

datatype aevent =
    Generate string pane bool   \<comment> \<open>a call of \<open>generateAiContent\<close>\<close>
  | GenreClick string
  | AnalyzeClick
  | ChatType string             \<comment> \<open>the user edits the chat input\<close>
  | ChatSend
  | Deliver nat settlement      \<comment> \<open>what a suspended call awaits settles\<close>
  | OpenLightbox lightbox_data
  | CloseLightbox

fun astep :: "aevent \<Rightarrow> astate \<Rightarrow> astate" where
  "astep (Generate prompt displayEl isChat) s = generateAiContent prompt displayEl isChat s"
| "astep (GenreClick genre) s = handleGenreClick genre s"
| "astep AnalyzeClick s = handleAnalyzeClick s"
| "astep (ChatType v) s = s\<lparr>chatInput := v\<rparr>"
| "astep ChatSend s = handleChatSend s"
| "astep (Deliver tid st) s =
     (case tasks s tid of None \<Rightarrow> s | Some tk \<Rightarrow> generate_resume tid tk st s)"
| "astep (OpenLightbox data) s = openLightbox data s"
| "astep CloseLightbox s = closeLightbox s"

definition arun :: "aevent list \<Rightarrow> astate \<Rightarrow> astate" where
  "arun evs s = fold astep evs s"

fun selects :: "aevent \<Rightarrow> bool" where
  \<comment> \<open>the events that select an image or clear the selection\<close>
  "selects (OpenLightbox _) = True"
| "selects CloseLightbox = True"
| "selects _ = False"

subsection \<open>Predicates and examples\<close>

definition cached :: "image_data \<Rightarrow> astate \<Rightarrow> bool" where
  \<comment> \<open>The selection holds a non-empty encoding and no call is waiting for a download.\<close>
  "cached img s =
     (currentImageData s = Some img \<and> \<not> js_falsy (base64 img)
      \<and> (\<forall>tid tk. tasks s tid = Some tk \<longrightarrow> task_phase tk \<noteq> AwaitEncoding))"

definition carries :: "image_data \<Rightarrow> gen_request \<Rightarrow> bool" where
  \<comment> \<open>The generation request was built from the encoding of this image reference.\<close>
  "carries img g = (gen_mimeType g = mimeType img \<and> gen_data g = base64 img)"

definition awaiting :: "image_data \<Rightarrow> nat \<Rightarrow> astate \<Rightarrow> bool" where
  \<comment> \<open>The given call, and no other, is waiting for the download of the selected image.\<close>
  "awaiting img tid s =
     (currentImageData s = Some img
      \<and> (\<exists>tk. tasks s tid = Some tk \<and> task_phase tk = AwaitEncoding)
      \<and> (\<forall>t tk. t \<noteq> tid \<longrightarrow> tasks s t = Some tk \<longrightarrow> task_phase tk \<noteq> AwaitEncoding))"

fun quiet :: "nat \<Rightarrow> aevent \<Rightarrow> bool" where
  \<comment> \<open>the events that neither select an image, nor call \<open>generateAiContent\<close>, nor settle
      what the given call awaits\<close>
  "quiet tid (ChatType v) = True"
| "quiet tid (Deliver t st) = (t \<noteq> tid)"
| "quiet tid _ = False"

fun own :: "nat \<Rightarrow> aevent list \<Rightarrow> settlement list" where
  \<comment> \<open>what the given call receives in the course of the events, in order\<close>
  "own tid [] = []"
| "own tid (Deliver t st # evs) = (if t = tid then st # own tid evs else own tid evs)"
| "own tid (_ # evs) = own tid evs"



fun node_id :: "node \<Rightarrow> nat option" where
  "node_id (Div i c t) = Some i"
| "node_id n = None"




definition example_image :: lightbox_data where
  "example_image =
     \<lparr>lb_url = ''https://upload.example/Sunset.jpg'', lb_title = ''Sunset'',
      lb_author = ''Uploader: Alice'', lb_thumb = ''https://upload.example/thumb/Sunset.jpg''\<rparr>"

definition example_fetch :: image_fetch where
  "example_fetch = GetResolved ''image/jpeg'' (ReadResult ''data:image/jpeg;base64,/9j/4AAQ'')"

definition awaiting_state :: astate where
  \<comment> \<open>an image is selected and a first call is waiting for its download\<close>
  "awaiting_state =
     generateAiContent ''Analyze this image.'' AnalysisDisplay False
       (openLightbox example_image init_astate)"

section \<open>Properties of the pagination controller\<close>


lemma fetchImages_guard:
  "isLoading s \<or> \<not> hasMore s \<or> currentQuery s = [] \<Longrightarrow> fetchImages s = s"
  by (simp add: fetchImages_def)

lemma store_continue_fields [simp]:
  "requests (store_continue d s) = requests s"
  "pending (store_continue d s) = pending s"
  "isLoading (store_continue d s) = isLoading s"
  "resultsContainer (store_continue d s) = resultsContainer s"
  "currentQuery (store_continue d s) = currentQuery s"
  by (simp_all add: store_continue_def split: option.splits)

lemma store_continue_hasMore: "hasMore (store_continue d s) \<Longrightarrow> hasMore s"
  by (simp add: store_continue_def split: option.splits)

lemma fetchImages_resume_requests [simp]:
  "requests (fetchImages_resume out s) = requests s"
  by (simp add: fetchImages_resume_def fetchImages_catch_def fetchImages_try_def Let_def
      split: outcome.splits completion.splits option.splits if_splits)

lemma fetchImages_resume_isLoading [simp]:
  "isLoading (fetchImages_resume out s) = False"
  by (simp add: fetchImages_resume_def Let_def)

lemma fetchImages_resume_pending [simp]:
  "pending (fetchImages_resume out s) = pending s - 1"
  by (simp add: fetchImages_resume_def fetchImages_catch_def fetchImages_try_def Let_def
      split: outcome.splits completion.splits option.splits if_splits)

lemma fetchImages_resume_hasMore:
  "hasMore (fetchImages_resume out s) \<Longrightarrow> hasMore s"
  by (auto simp add: fetchImages_resume_def fetchImages_catch_def fetchImages_try_def Let_def
      split: outcome.splits completion.splits option.splits if_splits dest: store_continue_hasMore)

lemma fetch_failed_hasMore:
  "fetch_failed out s \<Longrightarrow> \<not> hasMore (fetchImages_resume out s)"
  by (cases out) (auto simp add: fetchImages_resume_def fetchImages_catch_def split: completion.splits)

lemma pstep_exhausted:
  "\<not> is_Search e \<Longrightarrow> \<not> hasMore s \<Longrightarrow>
     \<not> hasMore (pstep e s) \<and> requests (pstep e s) = requests s"
  by (cases e) (auto simp add: fetchImages_def dest: fetchImages_resume_hasMore)

lemma prun_exhausted:
  "\<forall>e \<in> set evs. \<not> is_Search e \<Longrightarrow> \<not> hasMore s \<Longrightarrow>
     \<not> hasMore (prun evs s) \<and> requests (prun evs s) = requests s"
proof (induction evs arbitrary: s)
  case Nil
  then show ?case by (simp add: prun_def)
next
  case (Cons e evs)
  from Cons.prems have e: "\<not> is_Search e" and rest: "\<forall>e \<in> set evs. \<not> is_Search e" by simp_all
  from pstep_exhausted [OF e Cons.prems(2)]
  have h: "\<not> hasMore (pstep e s)" and r: "requests (pstep e s) = requests s" by simp_all
  from Cons.IH [OF rest h] r show ?case by (simp add: prun_def)
qed

lemma one_fetch_init: "one_fetch init_pstate"
  by (simp add: one_fetch_def init_pstate_def)

lemma one_fetch_fetchImages: "one_fetch s \<Longrightarrow> one_fetch (fetchImages s)"
  by (simp add: one_fetch_def fetchImages_def)

lemma handleSearch_reset_fields [simp]:
  "isLoading (handleSearch_reset q s) = isLoading s"
  "pending (handleSearch_reset q s) = pending s"
  "requests (handleSearch_reset q s) = requests s"
  "currentQuery (handleSearch_reset q s) = q"
  "gsroffset (handleSearch_reset q s) = 0"
  "hasMore (handleSearch_reset q s) = True"
  "resultsContainer (handleSearch_reset q s) = []"
  by (simp_all add: handleSearch_reset_def)

lemma one_fetch_pstep: "one_fetch s \<Longrightarrow> one_fetch (pstep e s)"
proof (cases e)
  case (Search qs inp)
  assume "one_fetch s"
  then show ?thesis using Search
    by (auto simp add: handleSearch_def Let_def one_fetch_def fetchImages_def)
next
  case Load
  assume "one_fetch s"
  then show ?thesis using Load by (simp add: one_fetch_fetchImages)
next
  case (Settle out)
  assume "one_fetch s"
  then show ?thesis using Settle by (auto simp add: one_fetch_def split: if_splits)
qed

lemma one_fetch_prun: "one_fetch s \<Longrightarrow> one_fetch (prun evs s)"
  by (induction evs arbitrary: s) (simp_all add: prun_def one_fetch_pstep)

subsection \<open>The enumeration order of a parsed object\<close>

lemma array_index_Some: "array_index k = Some n \<Longrightarrow> k = decimal n \<and> parse_nat k = n"
  by (auto simp add: array_index_def split: if_splits)

lemma set_put_index:
  "n \<notin> fst ` set ix \<Longrightarrow> set (put_index n v ix) = insert (n, v) (set ix)"
  by (induction ix) (auto split: if_splits)

lemma mset_put_index:
  "n \<notin> fst ` set ix \<Longrightarrow> mset (put_index n v ix) = add_mset (n, v) (mset ix)"
  by (induction ix) (auto split: if_splits)

lemma sorted_put_index:
  "n \<notin> fst ` set ix \<Longrightarrow> sorted (map fst ix) \<Longrightarrow> sorted (map fst (put_index n v ix))"
proof (induction ix)
  case Nil
  then show ?case by simp
next
  case (Cons a ix)
  obtain m w where a: "a = (m, w)" by (cases a)
  from Cons.prems have n: "n \<notin> fst ` set ix" and s: "sorted (map fst ix)"
    and nm: "n \<noteq> m" and le: "\<forall>x \<in> set ix. m \<le> fst x"
    by (auto simp add: a)
  show ?case
  proof (cases "n < m")
    case True
    then show ?thesis using Cons.prems a by auto
  next
    case False
    with nm have "m < n" by simp
    then have "\<forall>x \<in> set (put_index n v ix). m \<le> fst x"
      using le set_put_index [OF n, of v] by auto
    then show ?thesis using False nm a Cons.IH [OF n s] by simp
  qed
qed

lemma distinct_put_index:
  "n \<notin> fst ` set ix \<Longrightarrow> distinct (map fst ix) \<Longrightarrow> distinct (map fst (put_index n v ix))"
proof (induction ix)
  case Nil
  then show ?case by simp
next
  case (Cons a ix)
  obtain m w where a: "a = (m, w)" by (cases a)
  from Cons.prems have n: "n \<notin> fst ` set ix" and d: "distinct (map fst ix)"
    and nm: "n \<noteq> m" and m: "m \<notin> fst ` set ix"
    by (auto simp add: a)
  have "m \<notin> fst ` set (put_index n v ix)"
    using m nm set_put_index [OF n, of v] by auto
  then show ?case using Cons.prems a Cons.IH [OF n d] by auto
qed

lemma put_named_fresh: "k \<notin> fst ` set nm \<Longrightarrow> put_named k v nm = nm @ [(k, v)]"
  by (induction nm) auto

lemma Object_values_entries: "Object_values obj = map snd (Object_entries obj)"
  by (simp add: Object_values_def Object_entries_def case_prod_unfold comp_def)

lemma define_property_fresh:
  assumes "wf_object obj" and "k \<notin> fst ` set (Object_entries obj)"
  shows "wf_object (define_property k v obj)"
    and "mset (Object_entries (define_property k v obj)) = add_mset (k, v) (mset (Object_entries obj))"
    and "snd (define_property k v obj) = snd obj @ (if array_index k = None then [(k, v)] else [])"
proof -
  have "wf_object (define_property k v obj)
      \<and> mset (Object_entries (define_property k v obj)) = add_mset (k, v) (mset (Object_entries obj))
      \<and> snd (define_property k v obj) = snd obj @ (if array_index k = None then [(k, v)] else [])"
  proof (cases "array_index k")
    case None
    from assms(2) have "k \<notin> fst ` set (snd obj)" by (auto simp add: Object_entries_def)
    from put_named_fresh [OF this, of v] show ?thesis
      using assms(1) None by (auto simp add: define_property_def wf_object_def Object_entries_def)
  next
    case (Some n)
    from array_index_Some [OF Some] have k: "k = decimal n" by simp
    have fresh: "n \<notin> fst ` set (fst obj)"
    proof
      assume "n \<in> fst ` set (fst obj)"
      then obtain w where "(n, w) \<in> set (fst obj)" by auto
      then have "(decimal n, w) \<in> set (Object_entries obj)"
        by (force simp add: Object_entries_def)
      then show False using assms(2) k by force
    qed
    have s: "sorted (map fst (put_index n v (fst obj)))"
      using sorted_put_index [OF fresh] assms(1) by (simp add: wf_object_def)
    have d: "distinct (map fst (put_index n v (fst obj)))"
      using distinct_put_index [OF fresh] assms(1) by (simp add: wf_object_def)
    have a: "\<forall>(i, w) \<in> set (put_index n v (fst obj)). array_index (decimal i) = Some i"
      using set_put_index [OF fresh, of v] assms(1) Some k by (auto simp add: wf_object_def)
    have e: "mset (Object_entries (define_property k v obj))
             = add_mset (k, v) (mset (Object_entries obj))"
      using Some k
      by (simp add: define_property_def Object_entries_def mset_put_index [OF fresh])
    show ?thesis
      using Some s d a e assms(1) by (simp add: define_property_def wf_object_def)
  qed
  then show "wf_object (define_property k v obj)"
    and "mset (Object_entries (define_property k v obj)) = add_mset (k, v) (mset (Object_entries obj))"
    and "snd (define_property k v obj) = snd obj @ (if array_index k = None then [(k, v)] else [])"
    by simp_all
qed

lemma fold_define_property:
  assumes "wf_object obj" and "distinct (map fst body)"
    and "fst ` set body \<inter> fst ` set (Object_entries obj) = {}"
  shows "wf_object (fold (\<lambda>(k, v). define_property k v) body obj)
       \<and> mset (Object_entries (fold (\<lambda>(k, v). define_property k v) body obj))
         = mset (Object_entries obj) + mset body
       \<and> snd (fold (\<lambda>(k, v). define_property k v) body obj)
         = snd obj @ filter (\<lambda>(k, v). array_index k = None) body"
  using assms
proof (induction body arbitrary: obj)
  case Nil
  then show ?case by simp
next
  case (Cons m body)
  obtain k v where m: "m = (k, v)" by (cases m)
  from Cons.prems(3) m have fresh: "k \<notin> fst ` set (Object_entries obj)" by auto
  note dp = define_property_fresh [OF Cons.prems(1) fresh, of v]
  have "set (Object_entries (define_property k v obj)) = insert (k, v) (set (Object_entries obj))"
    using dp(2) by (metis set_mset_mset set_mset_add_mset_insert)
  then have disj: "fst ` set body \<inter> fst ` set (Object_entries (define_property k v obj)) = {}"
    using Cons.prems(2,3) m by auto
  from Cons.prems(2) have dist: "distinct (map fst body)" by simp
  from Cons.IH [OF dp(1) dist disj] show ?case
    using m dp(2,3) by simp
qed

lemma JSON_object_entries:
  assumes "distinct (map fst body)"
  shows "mset (Object_entries (JSON_object body)) = mset body"
    and "snd (JSON_object body) = filter (\<lambda>(k, v). array_index k = None) body"
    and "sorted (map (parse_nat \<circ> fst) (map (\<lambda>(n, v). (decimal n, v)) (fst (JSON_object body))))"
    and "\<forall>x \<in> set (map (\<lambda>(n, v). (decimal n, v)) (fst (JSON_object body))).
           array_index (fst x) \<noteq> None"
proof -
  have w0: "wf_object (([], []) :: 'a js_object)" by (simp add: wf_object_def)
  have d0: "fst ` set body \<inter> fst ` set (Object_entries (([], []) :: 'a js_object)) = {}"
    by (simp add: Object_entries_def)
  from fold_define_property [OF w0 assms d0]
  have w: "wf_object (JSON_object body)"
    and e: "mset (Object_entries (JSON_object body)) = mset (Object_entries (([], []) :: 'a js_object)) + mset body"
    and n: "snd (JSON_object body) = snd (([], []) :: 'a js_object) @ filter (\<lambda>(k, v). array_index k = None) body"
    unfolding JSON_object_def by blast+
  show "mset (Object_entries (JSON_object body)) = mset body"
    using e by (simp add: Object_entries_def)
  show "snd (JSON_object body) = filter (\<lambda>(k, v). array_index k = None) body"
    using n by simp
  have p: "parse_nat (decimal i) = i" if "(i, u) \<in> set (fst (JSON_object body))" for i u
    using w that array_index_Some [of "decimal i" i] by (auto simp add: wf_object_def)
  have eq: "map (parse_nat \<circ> fst) (map (\<lambda>(n, v). (decimal n, v)) (fst (JSON_object body)))
        = map fst (fst (JSON_object body))"
    using p by (auto simp add: comp_def case_prod_unfold)
  have "sorted (map fst (fst (JSON_object body)))"
    using w by (simp add: wf_object_def)
  then show "sorted (map (parse_nat \<circ> fst) (map (\<lambda>(n, v). (decimal n, v)) (fst (JSON_object body))))"
    by (simp only: eq)
  show "\<forall>x \<in> set (map (\<lambda>(n, v). (decimal n, v)) (fst (JSON_object body))).
          array_index (fst x) \<noteq> None"
    using w by (auto simp add: wf_object_def)
qed

lemma makeImageCard_shows:
  "page_imageinfo p = Some (info # rest) \<Longrightarrow> \<exists>c. makeImageCard p = Some c \<and> shows_result c p"
  by (simp add: makeImageCard_def shows_result_def card_template_def Let_def)

lemma map_makeImageCard_total:
  "\<forall>p \<in> set xs. \<exists>info rest. page_imageinfo p = Some (info # rest) \<Longrightarrow>
     \<exists>items. map_makeImageCard xs = Some items \<and> list_all2 shows_result items xs"
proof (induction xs)
  case Nil
  then show ?case by simp
next
  case (Cons p xs)
  then obtain items where items: "map_makeImageCard xs = Some items"
    "list_all2 shows_result items xs" by auto
  from Cons.prems obtain info rest where "page_imageinfo p = Some (info # rest)" by auto
  from makeImageCard_shows [OF this] obtain c where "makeImageCard p = Some c" "shows_result c p"
    by blast
  then show ?case using items by simp
qed

text \<open>
  C1 (as amended). A call of \<open>handleSearch\<close> whose query is non-empty and differs from the
  current query sets \<open>currentQuery\<close> to the query, the cursor to 0 and \<open>hasMore\<close> to true, and
  empties the rendered results, before it calls \<open>fetchImages\<close>; \<open>isLoading\<close> is not assigned
  and keeps the value it had when the search was submitted.
\<close>

theorem handleSearch_resets_query_state:
  assumes "search_query queryStr inputValue = q" and "q \<noteq> []" and "q \<noteq> currentQuery s"
  shows "currentQuery (handleSearch_reset q s) = q
       \<and> gsroffset (handleSearch_reset q s) = 0
       \<and> hasMore (handleSearch_reset q s)
       \<and> isLoading (handleSearch_reset q s) = isLoading s
       \<and> resultsContainer (handleSearch_reset q s) = []
       \<and> handleSearch queryStr inputValue s = fetchImages (handleSearch_reset q s)"
  using assms by (simp add: handleSearch_def Let_def)

theorem handleSearch_resets_query_state_witness:
  "currentQuery (handleSearch_reset ''cats'' init_pstate) = ''cats''
   \<and> gsroffset (handleSearch_reset ''cats'' init_pstate) = 0
   \<and> hasMore (handleSearch_reset ''cats'' init_pstate)
   \<and> isLoading (handleSearch_reset ''cats'' init_pstate) = isLoading init_pstate
   \<and> resultsContainer (handleSearch_reset ''cats'' init_pstate) = []
   \<and> handleSearch None ''  cats '' init_pstate = fetchImages (handleSearch_reset ''cats'' init_pstate)"
proof -
  have q: "search_query None ''  cats '' = ''cats''"
    by (simp add: search_query_def trim_def js_whitespace_def)
  have ne: "''cats'' \<noteq> []" by simp
  have cur: "''cats'' \<noteq> currentQuery init_pstate" by (simp add: init_pstate_def)
  show ?thesis using handleSearch_resets_query_state [OF q ne cur] by simp
qed

text \<open>
  The claim as written fails while a page fetch is in flight: the initial search for
  ``Landscape photography'' has set \<open>isLoading\<close>; a search for ``cats'' submitted before the
  response arrives leaves \<open>isLoading\<close> set after the reset, and issues no request.
\<close>

theorem handleSearch_isLoading_counterexample:
  "search_query None ''cats'' = ''cats''
   \<and> ''cats'' \<noteq> currentQuery (handleSearch (Some ''Landscape photography'') '''' init_pstate)
   \<and> isLoading (handleSearch_reset ''cats''
        (handleSearch (Some ''Landscape photography'') '''' init_pstate))
   \<and> requests (handleSearch None ''cats''
        (handleSearch (Some ''Landscape photography'') '''' init_pstate))
     = requests (handleSearch (Some ''Landscape photography'') '''' init_pstate)"
  by (simp add: search_query_def trim_def js_whitespace_def handleSearch_def
      handleSearch_reset_def fetchImages_def init_pstate_def Let_def)

lemma example_pages_values:
  "Object_values (JSON_object example_pages) = [snd (example_pages ! 1), snd (example_pages ! 0)]"
  by (simp add: example_pages_def Object_values_def JSON_object_def define_property_def
      array_index_def is_digit_def parse_nat_def digit_val_def decimal.simps)

lemma broken_pages_values:
  "Object_values (JSON_object [(''7'', \<lparr>page_title = ''File:Gone.jpg'', page_imageinfo = None\<rparr>)])
   = [\<lparr>page_title = ''File:Gone.jpg'', page_imageinfo = None\<rparr>]"
  by (simp add: Object_values_def JSON_object_def define_property_def
      array_index_def is_digit_def parse_nat_def digit_val_def decimal.simps)

text \<open>
  C2 (as amended). When the settled response carries a result set (\<open>query.pages\<close>, its
  identifiers distinct) in which every result has image information, the resumed
  \<open>fetchImages\<close> appends to the results container exactly one card per result, each showing
  its result, in the enumeration order of the parsed result set: the results whose
  identifier is an array index (a page id) in ascending numeric order, then the other
  results in the order of the response body.
\<close>

theorem fetchImages_appends_cards:
  assumes "query data = Some qp" and "pages qp = Some body"
    and "distinct (map fst body)"
    and "\<forall>p \<in> snd ` set body. \<exists>info rest. page_imageinfo p = Some (info # rest)"
  shows "\<exists>items ixs.
           resultsContainer (fetchImages_resume (Resolved data) s) = resultsContainer s @ items
         \<and> list_all2 shows_result items
             (map snd (ixs @ filter (\<lambda>(k, p). array_index k = None) body))
         \<and> mset (ixs @ filter (\<lambda>(k, p). array_index k = None) body) = mset body
         \<and> (\<forall>x \<in> set ixs. array_index (fst x) \<noteq> None)
         \<and> sorted (map (parse_nat \<circ> fst) ixs)"
proof -
  define ixs where "ixs = map (\<lambda>(n, v). (decimal n, v)) (fst (JSON_object body))"
  define qs where "qs = ixs @ filter (\<lambda>(k, p). array_index k = None) body"
  note obj = JSON_object_entries [OF assms(3)]
  have entries: "Object_entries (JSON_object body) = qs"
    using obj(2) by (simp add: Object_entries_def qs_def ixs_def)
  have perm: "mset qs = mset body"
    using obj(1) entries by simp
  have "snd ` set qs = snd ` set body"
    using perm by (metis set_mset_mset)
  then have "\<forall>p \<in> set (Object_values (JSON_object body)).
               \<exists>info rest. page_imageinfo p = Some (info # rest)"
    using assms(4) by (simp add: Object_values_entries entries)
  from map_makeImageCard_total [OF this] obtain items where
    items: "map_makeImageCard (Object_values (JSON_object body)) = Some items"
      "list_all2 shows_result items (map snd qs)"
    by (auto simp add: Object_values_entries entries)
  have "resultsContainer (fetchImages_resume (Resolved data) s) = resultsContainer s @ items"
    using assms(1,2) items(1)
    by (simp add: fetchImages_resume_def fetchImages_try_def Let_def)
  then show ?thesis
    using items(2) perm obj(3,4) unfolding qs_def ixs_def by blast
qed

lemma example_cards_rendered:
  "map_makeImageCard (Object_values (JSON_object example_pages)) = Some example_cards"
  unfolding example_pages_values
  by (simp add: example_pages_def example_cards_def example_info_def makeImageCard_def
      card_template_def sanitizeHtml_def escape_char_def strip_extension_def Let_def)

theorem fetchImages_appends_cards_witness:
  "distinct (map fst example_pages)
   \<and> resultsContainer (fetchImages_resume (Resolved example_response)
        (handleSearch (Some ''cats'') [] init_pstate)) = example_cards
   \<and> (\<exists>items ixs.
         resultsContainer (fetchImages_resume (Resolved example_response)
           (handleSearch (Some ''cats'') [] init_pstate))
         = resultsContainer (handleSearch (Some ''cats'') [] init_pstate) @ items
       \<and> list_all2 shows_result items
           (map snd (ixs @ filter (\<lambda>(k, p). array_index k = None) example_pages))
       \<and> mset (ixs @ filter (\<lambda>(k, p). array_index k = None) example_pages) = mset example_pages
       \<and> (\<forall>x \<in> set ixs. array_index (fst x) \<noteq> None)
       \<and> sorted (map (parse_nat \<circ> fst) ixs))"
proof -
  have q: "query example_response = Some \<lparr>pages = Some example_pages\<rparr>"
    by (simp add: example_response_def)
  have p: "pages \<lparr>pages = Some example_pages\<rparr> = Some example_pages" by simp
  have d: "distinct (map fst example_pages)" by (simp add: example_pages_def)
  have i: "\<forall>p \<in> snd ` set example_pages. \<exists>info rest. page_imageinfo p = Some (info # rest)"
    by (simp add: example_pages_def)
  have c: "resultsContainer (fetchImages_resume (Resolved example_response)
        (handleSearch (Some ''cats'') [] init_pstate)) = example_cards"
    using example_cards_rendered
    by (simp add: example_response_def fetchImages_resume_def fetchImages_try_def
        store_continue_def handleSearch_def handleSearch_reset_def fetchImages_def
        search_query_def init_pstate_def Let_def)
  show ?thesis using d c fetchImages_appends_cards [OF q p d i] by blast
qed

text \<open>
  As written, the claim fails on the order: the body lists the result with identifier 42
  before the one with identifier 11, and the cards are appended in the order 11, 42.
\<close>

theorem fetchImages_order_counterexample:
  "map fst example_pages = [''42'', ''11'']
   \<and> map (page_title \<circ> snd) example_pages = [''File:Two.cats.png'', ''File:Cat & dog.jpg'']
   \<and> map (lb_title \<circ> card_click)
        (resultsContainer (fetchImages_resume (Resolved example_response)
          (handleSearch (Some ''cats'') [] init_pstate)))
     = [''Cat & dog'', ''Two.cats'']"
proof -
  have "resultsContainer (fetchImages_resume (Resolved example_response)
        (handleSearch (Some ''cats'') [] init_pstate)) = example_cards"
    using example_cards_rendered
    by (simp add: example_response_def fetchImages_resume_def fetchImages_try_def
        store_continue_def handleSearch_def handleSearch_reset_def fetchImages_def
        search_query_def init_pstate_def Let_def)
  then show ?thesis
    by (simp add: example_pages_def example_cards_def)
qed

text \<open>
  C3. A call of \<open>fetchImages\<close> made while \<open>isLoading\<close> is set, or \<open>hasMore\<close> is cleared, or the
  current query is empty, returns the state unchanged, the log of issued requests
  included. In particular, once \<open>hasMore\<close> is false, no sequence of load signals and
  settled responses issues a request or sets \<open>hasMore\<close> again: only a search does.
\<close>

theorem fetchImages_guard_noop:
  "(isLoading s \<or> \<not> hasMore s \<or> currentQuery s = [] \<longrightarrow> fetchImages s = s)
   \<and> (\<not> hasMore s \<and> (\<forall>e \<in> set evs. \<not> is_Search e) \<longrightarrow>
        requests (prun evs s) = requests s \<and> \<not> hasMore (prun evs s))"
  using fetchImages_guard [of s] prun_exhausted [of evs s] by blast

theorem fetchImages_guard_noop_witness:
  "\<not> hasMore exhausted_pstate
   \<and> fetchImages exhausted_pstate = exhausted_pstate
   \<and> requests (prun [Load, Settle Rejected, Load] exhausted_pstate) = requests exhausted_pstate
   \<and> \<not> hasMore (prun [Load, Settle Rejected, Load] exhausted_pstate)"
proof -
  have h: "\<not> hasMore exhausted_pstate"
    by (simp add: exhausted_pstate_def fetchImages_resume_def fetchImages_try_def
        store_continue_def fetchImages_catch_def Let_def
        split: option.splits completion.splits)
  have e: "\<forall>e \<in> set [Load, Settle Rejected, Load]. \<not> is_Search e" by simp
  show ?thesis
    using h e fetchImages_guard_noop [of exhausted_pstate "[Load, Settle Rejected, Load]"]
    by blast
qed

text \<open>
  C4. When the settled request takes the \<open>catch\<close> block (the request was rejected, or
  rendering the response threw), the resumed \<open>fetchImages\<close> clears \<open>hasMore\<close> and issues no
  request of its own; no later load signal or settled response issues a request either,
  until a search is submitted.
\<close>

theorem fetch_failure_ends_pagination:
  assumes "fetch_failed out s" and "\<forall>e \<in> set evs. \<not> is_Search e"
  shows "\<not> hasMore (fetchImages_resume out s)
       \<and> \<not> isLoading (fetchImages_resume out s)
       \<and> requests (fetchImages_resume out s) = requests s
       \<and> requests (prun evs (fetchImages_resume out s)) = requests s
       \<and> \<not> hasMore (prun evs (fetchImages_resume out s))"
  using fetch_failed_hasMore [OF assms(1)]
    prun_exhausted [OF assms(2), of "fetchImages_resume out s"] by simp

theorem fetch_failure_ends_pagination_witness:
  "fetch_failed (Resolved broken_response) (handleSearch (Some ''cats'') [] init_pstate)
   \<and> \<not> hasMore (fetchImages_resume (Resolved broken_response)
          (handleSearch (Some ''cats'') [] init_pstate))
   \<and> requests (prun [Load, Load] (fetchImages_resume (Resolved broken_response)
          (handleSearch (Some ''cats'') [] init_pstate)))
     = requests (handleSearch (Some ''cats'') [] init_pstate)"
proof -
  have f: "fetch_failed (Resolved broken_response) (handleSearch (Some ''cats'') [] init_pstate)"
    by (simp add: broken_response_def fetchImages_try_def Let_def broken_pages_values
        makeImageCard_def handleSearch_def handleSearch_reset_def fetchImages_def
        search_query_def init_pstate_def)
  have e: "\<forall>e \<in> set [Load, Load]. \<not> is_Search e" by simp
  show ?thesis using f fetch_failure_ends_pagination [OF f e] by simp
qed

text \<open>
  C5. A call of \<open>fetchImages\<close> that passes its guard sets \<open>isLoading\<close>; the resumed call clears
  it whatever the outcome; and in every state reached from the initial one, \<open>isLoading\<close> is
  set exactly when one call is suspended at its request, and never more than one is.
\<close>

theorem isLoading_tracks_fetch:
  "(\<not> (isLoading s \<or> \<not> hasMore s \<or> currentQuery s = []) \<longrightarrow> isLoading (fetchImages s))
   \<and> \<not> isLoading (fetchImages_resume out s')
   \<and> (isLoading (prun evs init_pstate) \<longleftrightarrow> pending (prun evs init_pstate) = 1)
   \<and> pending (prun evs init_pstate) \<le> 1"
proof -
  have "one_fetch (prun evs init_pstate)"
    by (rule one_fetch_prun [OF one_fetch_init])
  then show ?thesis by (simp add: one_fetch_def fetchImages_def split: if_splits)
qed

theorem isLoading_tracks_fetch_witness:
  "isLoading (fetchImages (handleSearch_reset ''cats'' init_pstate))
   \<and> \<not> isLoading (fetchImages_resume Rejected (fetchImages (handleSearch_reset ''cats'' init_pstate)))
   \<and> isLoading (prun [Search (Some ''cats'') [], Load] init_pstate)
   \<and> pending (prun [Search (Some ''cats'') [], Load] init_pstate) = 1"
proof -
  have g: "\<not> (isLoading (handleSearch_reset ''cats'' init_pstate)
            \<or> \<not> hasMore (handleSearch_reset ''cats'' init_pstate)
            \<or> currentQuery (handleSearch_reset ''cats'' init_pstate) = [])"
    by (simp add: init_pstate_def)
  have l: "isLoading (prun [Search (Some ''cats'') [], Load] init_pstate)"
    by (simp add: prun_def handleSearch_def handleSearch_reset_def fetchImages_def
        search_query_def init_pstate_def Let_def)
  show ?thesis
    using g l isLoading_tracks_fetch [of "handleSearch_reset ''cats'' init_pstate" Rejected
        "fetchImages (handleSearch_reset ''cats'' init_pstate)" "[Search (Some ''cats'') [], Load]"]
    by blast
qed

text \<open>
  C9 (as amended). Of two consecutive calls of \<open>handleSearch\<close> with the same query, the
  second returns the state of the first unchanged and issues no request. Together they
  issue exactly one request when the query is non-empty, differs from the current query
  and no page fetch is in flight at the first call, and none otherwise.
\<close>

theorem handleSearch_twice:
  "handleSearch queryStr inputValue (handleSearch queryStr inputValue s)
     = handleSearch queryStr inputValue s
   \<and> requests (handleSearch queryStr inputValue (handleSearch queryStr inputValue s))
     = (if search_query queryStr inputValue \<noteq> []
           \<and> search_query queryStr inputValue \<noteq> currentQuery s \<and> \<not> isLoading s
        then requests s @ [\<lparr>gsrsearch = search_query queryStr inputValue,
                             gsrlimit = BATCH_SIZE, req_gsroffset = 0\<rparr>]
        else requests s)"
  by (simp add: handleSearch_def Let_def fetchImages_def)

theorem handleSearch_twice_witness:
  "handleSearch (Some ''cats'') [] (handleSearch (Some ''cats'') [] init_pstate)
     = handleSearch (Some ''cats'') [] init_pstate
   \<and> requests (handleSearch (Some ''cats'') [] (handleSearch (Some ''cats'') [] init_pstate))
     = [\<lparr>gsrsearch = ''cats'', gsrlimit = 24, req_gsroffset = 0\<rparr>]"
proof -
  have q: "search_query (Some ''cats'') [] = ''cats''" by (simp add: search_query_def)
  have c: "currentQuery init_pstate = []" "\<not> isLoading init_pstate" "requests init_pstate = []"
    by (simp_all add: init_pstate_def)
  show ?thesis
    using handleSearch_twice [of "Some ''cats''" "[]" init_pstate]
    by (auto simp add: q c BATCH_SIZE_def)
qed

text \<open>
  As written, the claim fails while a page fetch is in flight: with the initial search
  for ``Landscape photography'' still pending, two searches for ``cats'' issue no request.
\<close>

theorem handleSearch_twice_counterexample:
  "requests (handleSearch None ''cats'' (handleSearch None ''cats''
      (handleSearch (Some ''Landscape photography'') '''' init_pstate)))
   = requests (handleSearch (Some ''Landscape photography'') '''' init_pstate)
   \<and> requests (handleSearch (Some ''Landscape photography'') '''' init_pstate)
   = [\<lparr>gsrsearch = ''Landscape photography'', gsrlimit = 24, req_gsroffset = 0\<rparr>]"
  by (simp add: search_query_def trim_def js_whitespace_def handleSearch_def
      handleSearch_reset_def fetchImages_def init_pstate_def Let_def BATCH_SIZE_def)

section \<open>Properties of the AI assistant\<close>

lemma arun_Nil [simp]: "arun [] s = s"
  by (simp add: arun_def)

lemma arun_Cons [simp]: "arun (e # evs) s = arun evs (astep e s)"
  by (simp add: arun_def)

lemma arun_append: "arun (xs @ ys) s = arun ys (arun xs s)"
  by (simp add: arun_def)

subsection \<open>Created elements keep fresh identities\<close>

lemma node_id_reparse [simp]: "node_id (reparse x) = None"
  by (cases x) simp_all

lemma node_id_write_node [simp]: "node_id (write_node n u x) = node_id x"
  by (cases x) simp_all







subsection \<open>What a resumed call and a new call leave alone\<close>

lemma catch_fields:
  "tasks (generate_catch t tk msg s) = (tasks s)(t := None)"
  "display (generate_catch t tk msg s)
     = (display s)(task_displayEl tk :=
          map reparse (display s (task_displayEl tk)) @ [Html (error_markup msg)])"
  "nextTask (generate_catch t tk msg s) = nextTask s"
  "nextNode (generate_catch t tk msg s) = nextNode s"
  "currentImageData (generate_catch t tk msg s) = currentImageData s"
  "imageRequests (generate_catch t tk msg s) = imageRequests s"
  "genRequests (generate_catch t tk msg s) = genRequests s"
  by (simp_all add: generate_catch_def generate_finally_def setAiLoading_def)

lemma finally_fields:
  "tasks (generate_finally t s) = (tasks s)(t := None)"
  "display (generate_finally t s) = display s"
  "nextTask (generate_finally t s) = nextTask s"
  "nextNode (generate_finally t s) = nextNode s"
  "currentImageData (generate_finally t s) = currentImageData s"
  "imageRequests (generate_finally t s) = imageRequests s"
  "genRequests (generate_finally t s) = genRequests s"
  by (simp_all add: generate_finally_def setAiLoading_def)

lemma open_stream_fields:
  "tasks (open_stream t tk s)
     = (tasks s)(t \<mapsto> tk\<lparr>task_phase := Streaming []
          (if task_isChat tk then Created (nextNode s) else DisplayEl)\<rparr>)"
  "display (open_stream t tk s)
     = (if task_isChat tk
        then (display s)(task_displayEl tk :=
               display s (task_displayEl tk) @ [Div (nextNode s) ''chat-msg ai-msg'' []])
        else display s)"
  "nextTask (open_stream t tk s) = nextTask s"
  "currentImageData (open_stream t tk s) = currentImageData s"
  "imageRequests (open_stream t tk s) = imageRequests s"
  "genRequests (open_stream t tk s) = genRequests s"
  by (simp_all add: open_stream_def)

lemma write_container_fields:
  "tasks (write_container d c ft s) = tasks s"
  "display (write_container d c ft s)
     = (display s)(d := (case c of DisplayEl \<Rightarrow> set_innerText ft
                          | Created i \<Rightarrow> map (write_node i ft) (display s d)))"
  "nextTask (write_container d c ft s) = nextTask s"
  "currentImageData (write_container d c ft s) = currentImageData s"
  "imageRequests (write_container d c ft s) = imageRequests s"
  "genRequests (write_container d c ft s) = genRequests s"
  by (simp_all add: write_container_def split: container.splits)

lemma request_stream_fields:
  "tasks (request_stream t tk img s) = (tasks s)(t \<mapsto> tk\<lparr>task_phase := AwaitStream\<rparr>)"
  "display (request_stream t tk img s) = display s"
  "nextTask (request_stream t tk img s) = nextTask s"
  "nextNode (request_stream t tk img s) = nextNode s"
  "currentImageData (request_stream t tk img s) = currentImageData s"
  "imageRequests (request_stream t tk img s) = imageRequests s"
  by (simp_all add: request_stream_def)

lemmas step_fields =
  catch_fields finally_fields open_stream_fields write_container_fields request_stream_fields

lemma resume_tasks_other: "t' \<noteq> t \<Longrightarrow> tasks (generate_resume t tk st s) t' = tasks s t'"
  by (cases "task_phase tk"; cases st)
     (simp_all add: generate_resume_def step_fields Let_def split: sum.splits option.splits)





lemma generate_frame:
  shows generate_tasks_other:
      "t \<noteq> nextTask s \<Longrightarrow> tasks (generateAiContent p d c s) t = tasks s t"
    and generate_display_other:
      "d' \<noteq> d \<Longrightarrow> display (generateAiContent p d c s) d' = display s d'"
    and generate_task_displayEl:
      "currentImageData s \<noteq> None \<Longrightarrow>
         \<exists>tk. tasks (generateAiContent p d c s) (nextTask s) = Some tk \<and> task_displayEl tk = d"
    and generate_nextTask:
      "currentImageData s \<noteq> None \<Longrightarrow> nextTask (generateAiContent p d c s) = Suc (nextTask s)"
    and generate_image: "currentImageData (generateAiContent p d c s) = currentImageData s"
  by (auto simp add: generateAiContent_def request_stream_def getAi_def setAiLoading_def Let_def
      split: option.splits)





lemma own_Cons: "own tid (e # evs) = own tid [e] @ own tid evs"
  by (cases e) simp_all

lemma own_append: "own tid (xs @ ys) = own tid xs @ own tid ys"
proof (induction xs)
  case Nil
  then show ?case by simp
next
  case (Cons e xs)
  then show ?case using own_Cons [of tid e "xs @ ys"] own_Cons [of tid e xs] by simp
qed



subsection \<open>A stream among the events of other calls\<close>







subsection \<open>The encoding of the selected image\<close>

lemma generate_cached:
  assumes "cached img s"
  shows "cached img (generateAiContent p d c s)"
    and "imageRequests (generateAiContent p d c s) = imageRequests s"
    and "\<exists>g. genRequests (generateAiContent p d c s) = genRequests s @ [g] \<and> carries img g"
  using assms
  by (auto simp add: cached_def carries_def generateAiContent_def request_stream_def getAi_def
      setAiLoading_def Let_def)

lemma resume_cached:
  assumes "cached img s" and "tasks s tid = Some tk"
  shows "cached img (generate_resume tid tk st s)"
    and "imageRequests (generate_resume tid tk st s) = imageRequests s"
    and "genRequests (generate_resume tid tk st s) = genRequests s"
proof -
  from assms have ph: "task_phase tk \<noteq> AwaitEncoding" by (auto simp add: cached_def)
  show "cached img (generate_resume tid tk st s)"
    using assms(1) ph
    by (cases "task_phase tk"; cases st)
       (auto simp add: cached_def generate_resume_def generate_catch_def generate_finally_def
          open_stream_def write_container_def setAiLoading_def Let_def split: container.splits)
  show "imageRequests (generate_resume tid tk st s) = imageRequests s"
    using ph
    by (cases "task_phase tk"; cases st)
       (auto simp add: generate_resume_def generate_catch_def generate_finally_def
          open_stream_def write_container_def setAiLoading_def Let_def split: container.splits)
  show "genRequests (generate_resume tid tk st s) = genRequests s"
    using ph
    by (cases "task_phase tk"; cases st)
       (auto simp add: generate_resume_def generate_catch_def generate_finally_def
          open_stream_def write_container_def setAiLoading_def Let_def split: container.splits)
qed

lemma astep_cached:
  assumes "cached img s" and "\<not> selects e"
  shows "cached img (astep e s)
       \<and> imageRequests (astep e s) = imageRequests s
       \<and> (\<exists>gs. genRequests (astep e s) = genRequests s @ gs \<and> (\<forall>g \<in> set gs. carries img g))"
proof (cases e)
  case (Generate p d c)
  from generate_cached [OF assms(1), of p d c] show ?thesis
    unfolding Generate by fastforce
next
  case (GenreClick genre)
  from generate_cached [OF assms(1)] show ?thesis
    unfolding GenreClick by (fastforce simp add: handleGenreClick_def)
next
  case AnalyzeClick
  from generate_cached [OF assms(1)] show ?thesis
    unfolding AnalyzeClick by (fastforce simp add: handleAnalyzeClick_def)
next
  case (ChatType v)
  then show ?thesis using assms(1) by (simp add: cached_def)
next
  case ChatSend
  show ?thesis
  proof (cases "trim (chatInput s) = []")
    case True
    then show ?thesis using assms(1) ChatSend by (simp add: handleChatSend_def)
  next
    case False
    let ?s = "s\<lparr>display := (display s)(ChatHistory := display s ChatHistory @
                 [Div (nextNode s) ''chat-msg user-msg'' (''You: '' @ trim (chatInput s))]),
               nextNode := Suc (nextNode s), chatInput := ''''\<rparr>"
    have c: "cached img ?s" using assms(1) by (simp add: cached_def)
    have eq: "astep e s = generateAiContent
        (''Answer this question about the provided image: '' @ trim (chatInput s)) ChatHistory True ?s"
      using False ChatSend by (simp add: handleChatSend_def Let_def)
    from generate_cached [OF c] show ?thesis
      unfolding eq by fastforce
  qed
next
  case (Deliver tid st)
  show ?thesis
  proof (cases "tasks s tid")
    case None
    then show ?thesis using assms(1) Deliver by simp
  next
    case (Some tk)
    from resume_cached [OF assms(1) Some, of st] show ?thesis
      using Deliver Some by simp
  qed
next
  case (OpenLightbox x)
  then show ?thesis using assms(2) by simp
next
  case CloseLightbox
  then show ?thesis using assms(2) by simp
qed

lemma arun_cached:
  assumes "cached img s" and "\<forall>e \<in> set evs. \<not> selects e"
  shows "cached img (arun evs s)
       \<and> imageRequests (arun evs s) = imageRequests s
       \<and> (\<exists>gs. genRequests (arun evs s) = genRequests s @ gs \<and> (\<forall>g \<in> set gs. carries img g))"
  using assms
proof (induction evs arbitrary: s)
  case Nil
  then show ?case by simp
next
  case (Cons e evs)
  from Cons.prems have e: "\<not> selects e" and rest: "\<forall>e \<in> set evs. \<not> selects e" by simp_all
  from astep_cached [OF Cons.prems(1) e] obtain gs where
    c: "cached img (astep e s)" and i: "imageRequests (astep e s) = imageRequests s"
    and g: "genRequests (astep e s) = genRequests s @ gs" "\<forall>g \<in> set gs. carries img g"
    by blast
  from Cons.IH [OF c rest] obtain gs' where
    c': "cached img (arun evs (astep e s))"
    and i': "imageRequests (arun evs (astep e s)) = imageRequests (astep e s)"
    and g': "genRequests (arun evs (astep e s)) = genRequests (astep e s) @ gs'"
      "\<forall>g \<in> set gs'. carries img g"
    by blast
  have "genRequests (arun (e # evs) s) = genRequests s @ (gs @ gs')
        \<and> (\<forall>g \<in> set (gs @ gs'). carries img g)"
    using g g' by auto
  then show ?case using c' i i' by auto
qed

lemma resume_no_fetch:
  assumes "task_phase tk \<noteq> AwaitEncoding"
  shows "currentImageData (generate_resume t tk st s) = currentImageData s"
    and "imageRequests (generate_resume t tk st s) = imageRequests s"
    and "genRequests (generate_resume t tk st s) = genRequests s"
    and "tasks (generate_resume t tk st s) t = Some tk' \<Longrightarrow> tasks s t = Some tk \<Longrightarrow>
           task_phase tk' \<noteq> AwaitEncoding"
  using assms
  by (cases "task_phase tk"; cases st;
      auto simp add: generate_resume_def step_fields Let_def)+

lemma quiet_astep:
  assumes "quiet tid e" and "awaiting img tid s"
  shows "awaiting img tid (astep e s) \<and> imageRequests (astep e s) = imageRequests s
       \<and> genRequests (astep e s) = genRequests s"
proof (cases e)
  case (ChatType v)
  then show ?thesis using assms(2) by (simp add: awaiting_def)
next
  case (Deliver t st)
  with assms(1) have ne: "t \<noteq> tid" by simp
  show ?thesis
  proof (cases "tasks s t")
    case None
    then show ?thesis using assms(2) Deliver by simp
  next
    case (Some tk)
    with assms(2) ne have ph: "task_phase tk \<noteq> AwaitEncoding" by (simp add: awaiting_def)
    have "awaiting img tid (generate_resume t tk st s)"
      unfolding awaiting_def
    proof (intro conjI allI impI)
      show "currentImageData (generate_resume t tk st s) = Some img"
        using assms(2) by (simp add: resume_no_fetch(1) [OF ph] awaiting_def)
      show "\<exists>tk'. tasks (generate_resume t tk st s) tid = Some tk' \<and> task_phase tk' = AwaitEncoding"
        using assms(2) ne by (simp add: resume_tasks_other awaiting_def)
    next
      fix t' tk'
      assume n: "t' \<noteq> tid" and k: "tasks (generate_resume t tk st s) t' = Some tk'"
      show "task_phase tk' \<noteq> AwaitEncoding"
      proof (cases "t' = t")
        case True
        with k resume_no_fetch(4) [OF ph _ Some] show ?thesis by simp
      next
        case False
        with k have "tasks s t' = Some tk'" by (simp add: resume_tasks_other)
        with assms(2) n show ?thesis by (simp add: awaiting_def)
      qed
    qed
    then show ?thesis
      using Deliver Some by (simp add: resume_no_fetch(2,3) [OF ph])
  qed
qed (use assms(1) in simp_all)

lemma quiet_arun:
  assumes "\<forall>e \<in> set evs. quiet tid e" and "awaiting img tid s"
  shows "awaiting img tid (arun evs s) \<and> imageRequests (arun evs s) = imageRequests s
       \<and> genRequests (arun evs s) = genRequests s"
  using assms
proof (induction evs arbitrary: s)
  case Nil
  then show ?case by simp
next
  case (Cons e evs)
  from Cons.prems(1) have q: "quiet tid e" and r: "\<forall>e \<in> set evs. quiet tid e" by simp_all
  from quiet_astep [OF q Cons.prems(2)] Cons.IH [OF r] show ?case by simp
qed

lemma generate_uncached:
  assumes "currentImageData s = Some img" and "js_falsy (base64 img)"
  shows "imageRequests (generateAiContent p d c s) = imageRequests s @ [url img]"
    and "genRequests (generateAiContent p d c s) = genRequests s"
    and "currentImageData (generateAiContent p d c s) = Some img"
    and "tasks (generateAiContent p d c s)
         = (tasks s)(nextTask s \<mapsto> \<lparr>task_prompt = p, task_displayEl = d, task_isChat = c,
              task_phase = AwaitEncoding\<rparr>)"
  using assms
  by (simp_all add: generateAiContent_def getAi_def setAiLoading_def Let_def)

lemma image_stored:
  assumes "awaiting img tid s" and "imageUrlToBase64 r = Inr (mime, data)"
  shows "currentImageData (astep (Deliver tid (ImageFetched r)) s)
         = Some (img\<lparr>mimeType := Some mime, base64 := data\<rparr>)"
    and "imageRequests (astep (Deliver tid (ImageFetched r)) s) = imageRequests s"
    and "\<exists>g. genRequests (astep (Deliver tid (ImageFetched r)) s) = genRequests s @ [g]
           \<and> carries (img\<lparr>mimeType := Some mime, base64 := data\<rparr>) g"
    and "\<forall>t tk. tasks (astep (Deliver tid (ImageFetched r)) s) t = Some tk \<longrightarrow>
           task_phase tk \<noteq> AwaitEncoding"
proof -
  from assms(1) obtain tk where tk: "tasks s tid = Some tk" "task_phase tk = AwaitEncoding"
    and img: "currentImageData s = Some img"
    and oth: "\<forall>t tk. t \<noteq> tid \<longrightarrow> tasks s t = Some tk \<longrightarrow> task_phase tk \<noteq> AwaitEncoding"
    by (auto simp add: awaiting_def)
  let ?img = "img\<lparr>mimeType := Some mime, base64 := data\<rparr>"
  have eq: "astep (Deliver tid (ImageFetched r)) s
            = request_stream tid tk ?img (s\<lparr>currentImageData := Some ?img\<rparr>)"
    using tk img assms(2) by (simp add: generate_resume_def Let_def)
  show "currentImageData (astep (Deliver tid (ImageFetched r)) s) = Some ?img"
    and "imageRequests (astep (Deliver tid (ImageFetched r)) s) = imageRequests s"
    and "\<exists>g. genRequests (astep (Deliver tid (ImageFetched r)) s) = genRequests s @ [g]
           \<and> carries ?img g"
    unfolding eq by (simp_all add: request_stream_def carries_def)
  show "\<forall>t tk. tasks (astep (Deliver tid (ImageFetched r)) s) t = Some tk \<longrightarrow>
           task_phase tk \<noteq> AwaitEncoding"
    unfolding eq using oth by (auto simp add: request_stream_def)
qed

text \<open>
  C6 (as amended). A call of \<open>generateAiContent\<close> for a selection that holds no encoding
  downloads the image, also while the download of an earlier call is in flight. When no
  download is in flight at the call and no other call is made before its own download
  resolves with a non-empty encoding, the image is downloaded once, \<open>mimeType\<close> and \<open>base64\<close>
  are stored on the image reference, and from then on, whatever calls, stream events and
  failures follow, no further download is issued, every generation request carries the
  stored encoding, and the encoding stays as stored until an image is selected or the
  selection is cleared.
\<close>

theorem encoding_fetched_once:
  "(currentImageData s0 = Some img0 \<and> js_falsy (base64 img0) \<longrightarrow>
      imageRequests (generateAiContent prompt0 displayEl0 isChat0 s0)
      = imageRequests s0 @ [url img0])
   \<and> (currentImageData s = Some img \<and> js_falsy (base64 img)
      \<and> (\<forall>tid tk. tasks s tid = Some tk \<longrightarrow> task_phase tk \<noteq> AwaitEncoding)
      \<and> imageUrlToBase64 r = Inr (mime, Some data) \<and> data \<noteq> []
      \<and> (\<forall>e \<in> set mid. quiet (nextTask s) e) \<and> (\<forall>e \<in> set evs. \<not> selects e) \<longrightarrow>
        imageRequests (arun (Generate prompt displayEl isChat # mid @
            Deliver (nextTask s) (ImageFetched r) # evs) s) = imageRequests s @ [url img]
      \<and> currentImageData (arun (Generate prompt displayEl isChat # mid @
            Deliver (nextTask s) (ImageFetched r) # evs) s)
        = Some (img\<lparr>mimeType := Some mime, base64 := Some data\<rparr>)
      \<and> (\<exists>gs. genRequests (arun (Generate prompt displayEl isChat # mid @
            Deliver (nextTask s) (ImageFetched r) # evs) s) = genRequests s @ gs
          \<and> (\<forall>g \<in> set gs. gen_mimeType g = Some mime \<and> gen_data g = Some data)))"
proof (intro conjI impI)
  assume "currentImageData s0 = Some img0 \<and> js_falsy (base64 img0)"
  then show "imageRequests (generateAiContent prompt0 displayEl0 isChat0 s0)
             = imageRequests s0 @ [url img0]"
    by (simp add: generate_uncached(1))
next
  assume h: "currentImageData s = Some img \<and> js_falsy (base64 img)
      \<and> (\<forall>tid tk. tasks s tid = Some tk \<longrightarrow> task_phase tk \<noteq> AwaitEncoding)
      \<and> imageUrlToBase64 r = Inr (mime, Some data) \<and> data \<noteq> []
      \<and> (\<forall>e \<in> set mid. quiet (nextTask s) e) \<and> (\<forall>e \<in> set evs. \<not> selects e)"
  let ?img = "img\<lparr>mimeType := Some mime, base64 := Some data\<rparr>"
  define s1 where "s1 = arun mid (generateAiContent prompt displayEl isChat s)"
  define s2 where "s2 = astep (Deliver (nextTask s) (ImageFetched r)) s1"
  have run: "arun (Generate prompt displayEl isChat # mid @
      Deliver (nextTask s) (ImageFetched r) # evs) s = arun evs s2"
    by (simp add: arun_append s1_def s2_def)
  from h have sel: "currentImageData s = Some img" and un: "js_falsy (base64 img)" by simp_all
  note g = generate_uncached [OF sel un, of prompt displayEl isChat]
  have "awaiting img (nextTask s) (generateAiContent prompt displayEl isChat s)"
    using h g(3,4) by (auto simp add: awaiting_def)
  with quiet_arun [of mid "nextTask s" img] h
  have a1: "awaiting img (nextTask s) s1"
    and i1: "imageRequests s1 = imageRequests s @ [url img]"
    and g1: "genRequests s1 = genRequests s"
    using g(1,2) by (simp_all add: s1_def)
  from h have r: "imageUrlToBase64 r = Inr (mime, Some data)" by simp
  note st = image_stored [OF a1 r]
  have c2: "cached ?img s2"
    using st(1,4) h by (simp add: cached_def js_falsy_def s2_def)
  from h have "\<forall>e \<in> set evs. \<not> selects e" by simp
  from arun_cached [OF c2 this] obtain gs where
    c3: "cached ?img (arun evs s2)" and i3: "imageRequests (arun evs s2) = imageRequests s2"
    and g3: "genRequests (arun evs s2) = genRequests s2 @ gs" "\<forall>g \<in> set gs. carries ?img g"
    by blast
  from st(3) obtain g0 where g0: "genRequests s2 = genRequests s1 @ [g0]" "carries ?img g0"
    by (auto simp add: s2_def)
  show "imageRequests (arun (Generate prompt displayEl isChat # mid @
      Deliver (nextTask s) (ImageFetched r) # evs) s) = imageRequests s @ [url img]"
    unfolding run using i3 st(2) i1 by (simp add: s2_def)
  show "currentImageData (arun (Generate prompt displayEl isChat # mid @
      Deliver (nextTask s) (ImageFetched r) # evs) s) = Some ?img"
    unfolding run using c3 by (simp add: cached_def)
  have "genRequests (arun evs s2) = genRequests s @ (g0 # gs)
        \<and> (\<forall>g \<in> set (g0 # gs). gen_mimeType g = Some mime \<and> gen_data g = Some data)"
    using g0 g3 g1 by (auto simp add: carries_def)
  then show "\<exists>gs. genRequests (arun (Generate prompt displayEl isChat # mid @
      Deliver (nextTask s) (ImageFetched r) # evs) s) = genRequests s @ gs
      \<and> (\<forall>g \<in> set gs. gen_mimeType g = Some mime \<and> gen_data g = Some data)"
    unfolding run by blast
qed

theorem encoding_fetched_once_witness:
  "imageRequests (generateAiContent ''story'' StoryDisplay False awaiting_state)
   = [''https://upload.example/Sunset.jpg'', ''https://upload.example/Sunset.jpg'']
   \<and> imageRequests (arun (Generate ''story'' StoryDisplay False # [ChatType ''why?''] @
        Deliver 0 (ImageFetched example_fetch) #
        [AnalyzeClick, Deliver 0 StreamOpened, ChatSend, Deliver 1 (Failed ''quota''),
         GenreClick ''noir''])
      (openLightbox example_image init_astate))
     = [''https://upload.example/Sunset.jpg'']
   \<and> currentImageData (arun (Generate ''story'' StoryDisplay False # [ChatType ''why?''] @
        Deliver 0 (ImageFetched example_fetch) #
        [AnalyzeClick, Deliver 0 StreamOpened, ChatSend, Deliver 1 (Failed ''quota''),
         GenreClick ''noir''])
      (openLightbox example_image init_astate))
     = Some \<lparr>url = ''https://upload.example/Sunset.jpg'', title = ''Sunset'',
             mimeType = Some ''image/jpeg'', base64 = Some ''/9j/4AAQ''\<rparr>"
proof -
  let ?s = "openLightbox example_image init_astate"
  let ?img = "\<lparr>url = ''https://upload.example/Sunset.jpg'', title = ''Sunset'',
                mimeType = None, base64 = None\<rparr>"
  have c0: "currentImageData awaiting_state = Some ?img"
    and i0: "imageRequests awaiting_state = [''https://upload.example/Sunset.jpg'']"
    by (simp_all add: awaiting_state_def openLightbox_def generateAiContent_def getAi_def
        setAiLoading_def js_falsy_def init_astate_def example_image_def Let_def)
  have c: "currentImageData ?s = Some ?img"
    by (simp add: openLightbox_def example_image_def)
  have f: "js_falsy (base64 ?img)" by (simp add: js_falsy_def)
  have t: "\<forall>tid tk. tasks ?s tid = Some tk \<longrightarrow> task_phase tk \<noteq> AwaitEncoding"
    by (simp add: openLightbox_def init_astate_def)
  have r: "imageUrlToBase64 example_fetch = Inr (''image/jpeg'', Some ''/9j/4AAQ'')"
    by (simp add: example_fetch_def split_comma_1_def)
  have d: "''/9j/4AAQ'' \<noteq> []" by simp
  have n: "nextTask ?s = 0" "imageRequests ?s = []"
    by (simp_all add: openLightbox_def init_astate_def)
  have m: "\<forall>e \<in> set [ChatType ''why?'']. quiet (nextTask ?s) e" by simp
  have e: "\<forall>e \<in> set [AnalyzeClick, Deliver 0 StreamOpened, ChatSend,
          Deliver 1 (Failed ''quota''), GenreClick ''noir'']. \<not> selects e" by simp
  show ?thesis
    using encoding_fetched_once [of awaiting_state ?img "''story''" StoryDisplay False
        ?s ?img example_fetch "''image/jpeg''" "''/9j/4AAQ''" "[ChatType ''why?'']"
        "[AnalyzeClick, Deliver 0 StreamOpened, ChatSend, Deliver 1 (Failed ''quota''),
          GenreClick ''noir'']" "''story''" StoryDisplay False]
      c0 c f t r d m e
    unfolding n i0 by simp
qed

text \<open>
  As written, the claim fails for calls that overlap: the image reference has no state
  for a download in flight, so a second call made before the first download has settled
  downloads the image of the same selection again.
\<close>

theorem overlapping_generate_counterexample:
  "imageRequests (arun [OpenLightbox example_image, GenreClick ''noir'', AnalyzeClick] init_astate)
   = [''https://upload.example/Sunset.jpg'', ''https://upload.example/Sunset.jpg'']"
  by (simp add: openLightbox_def handleGenreClick_def handleAnalyzeClick_def generateAiContent_def
      getAi_def setAiLoading_def js_falsy_def init_astate_def example_image_def Let_def)

subsection \<open>Calls, streams and failures\<close>

text \<open>
  C7. A call of \<open>generateAiContent\<close> made while no image is selected returns the state
  unchanged: no image download and no generation request is logged, and no output
  element changes.
\<close>

theorem generate_without_image:
  "currentImageData s = None \<Longrightarrow> generateAiContent prompt displayEl isChat s = s"
  by (simp add: generateAiContent_def)

theorem generate_without_image_witness:
  "currentImageData init_astate = None
   \<and> generateAiContent ''Analyze this image.'' AnalysisDisplay False init_astate = init_astate"
proof -
  have n: "currentImageData init_astate = None" by (simp add: init_astate_def)
  show ?thesis using n generate_without_image [OF n] by simp
qed






end
